theory Spec2Isabelle
  imports Complex_Main "HOL-Library.AList" "HOL-Library.Sublist" "HOL-Library.Log_Nat"
begin

section \<open>The build script \<open>build.js\<close> as a state-passing program\<close>

text \<open>
  \<open>build.js\<close> is a sequence of six steps that call external tools and touch the output
  directory \<open>docs/\<close>. The script's own logic is embedded as functions on an explicit
  state; what the tools answer during one run is collected in a record \<open>env\<close>, so
  every statement below holds for all tool behaviours.
\<close>

subsection \<open>Strings, paths and the output directory\<close>

type_synonym path = string

text \<open>
  The output directory \<open>DST_PATH\<close>: its files, keyed by the path relative to
  \<open>DST_PATH\<close>, in an association list, each file being its bytes. \<open>fs.*Sync\<close> calls on
  it are the total operations below. A text of the script (a JavaScript string) is
  represented by its UTF-8 encoding, which is what \<open>writeFileSync\<close> with \<open>'utf8'\<close> puts
  on disk; the one file the script reads back from the output directory is decoded
  explicitly (see \<open>readFileSync\<close>).
\<close>

type_synonym dir = "(path \<times> string) list"

definition nl :: string where
  "nl = [CHR 0x0A]"

definition path_join :: "path \<Rightarrow> path \<Rightarrow> path" where
  "path_join a b = a @ ''/'' @ b"

definition existsSync :: "dir \<Rightarrow> path \<Rightarrow> bool" where
  "existsSync d p = (map_of d p \<noteq> None)"

definition writeFileSync :: "path \<Rightarrow> string \<Rightarrow> dir \<Rightarrow> dir" where
  "writeFileSync p content d = AList.update p content d"

text \<open>\<open>Array.prototype.join\<close> and \<open>String.prototype.split\<close> with a one-character separator.\<close>

fun join :: "string \<Rightarrow> string list \<Rightarrow> string" where
  "join sep [] = []"
| "join sep [x] = x"
| "join sep (x # y # ys) = x @ sep @ join sep (y # ys)"

fun split :: "char \<Rightarrow> string \<Rightarrow> string list" where
  "split c [] = [[]]"
| "split c (x # xs) =
     (if x = c then [] # split c xs
      else (case split c xs of l # ls \<Rightarrow> (x # l) # ls | [] \<Rightarrow> [[x]]))"

subsection \<open>UTF-8\<close>

text \<open>
  \<open>readFileSync(path, 'utf8')\<close> decodes the bytes of the file as the UTF-8 decoder of the
  Encoding standard does: a well-formed sequence gives its code point, and every maximal
  ill-formed part gives U+FFFD, the byte that ended it being read again. A first byte
  \<open>E0\<close>, \<open>ED\<close>, \<open>F0\<close> or \<open>F4\<close> narrows the range of the byte after it. No byte order
  mark is removed. The text is the list of its code points.
\<close>

definition continuation :: "nat \<Rightarrow> nat \<Rightarrow> nat \<Rightarrow> bool" where
  "continuation lo hi b = (lo \<le> b \<and> b \<le> hi)"

definition lower_bound :: "nat \<Rightarrow> nat" where
  "lower_bound b = (if b = 0xE0 then 0xA0 else if b = 0xF0 then 0x90 else 0x80)"

definition upper_bound :: "nat \<Rightarrow> nat" where
  "upper_bound b = (if b = 0xED then 0x9F else if b = 0xF4 then 0x8F else 0xBF)"

fun decode_bytes :: "nat list \<Rightarrow> nat list" where
  "decode_bytes [] = []"
| "decode_bytes (b # bs) =
     (if b < 0x80 then b # decode_bytes bs
      else if 0xC2 \<le> b \<and> b \<le> 0xDF then
        (case bs of
           [] \<Rightarrow> [0xFFFD]
         | c1 # bs1 \<Rightarrow>
             if continuation 0x80 0xBF c1
             then ((b - 0xC0) * 64 + (c1 - 0x80)) # decode_bytes bs1
             else 0xFFFD # decode_bytes bs)
      else if 0xE0 \<le> b \<and> b \<le> 0xEF then
        (case bs of
           [] \<Rightarrow> [0xFFFD]
         | c1 # bs1 \<Rightarrow>
             if continuation (lower_bound b) (upper_bound b) c1
             then (case bs1 of
                     [] \<Rightarrow> [0xFFFD]
                   | c2 # bs2 \<Rightarrow>
                       if continuation 0x80 0xBF c2
                       then (((b - 0xE0) * 64 + (c1 - 0x80)) * 64 + (c2 - 0x80))
                              # decode_bytes bs2
                       else 0xFFFD # decode_bytes bs1)
             else 0xFFFD # decode_bytes bs)
      else if 0xF0 \<le> b \<and> b \<le> 0xF4 then
        (case bs of
           [] \<Rightarrow> [0xFFFD]
         | c1 # bs1 \<Rightarrow>
             if continuation (lower_bound b) (upper_bound b) c1
             then (case bs1 of
                     [] \<Rightarrow> [0xFFFD]
                   | c2 # bs2 \<Rightarrow>
                       if continuation 0x80 0xBF c2
                       then (case bs2 of
                               [] \<Rightarrow> [0xFFFD]
                             | c3 # bs3 \<Rightarrow>
                                 if continuation 0x80 0xBF c3
                                 then ((((b - 0xF0) * 64 + (c1 - 0x80)) * 64 + (c2 - 0x80)) * 64
                                        + (c3 - 0x80)) # decode_bytes bs3
                                 else 0xFFFD # decode_bytes bs2)
                       else 0xFFFD # decode_bytes bs1)
             else 0xFFFD # decode_bytes bs)
      else 0xFFFD # decode_bytes bs)"

text \<open>
  \<open>writeFileSync(path, text, 'utf8')\<close> encodes each code point in one to four bytes; a
  surrogate that stands alone is written as U+FFFD.
\<close>

definition encode_code_point :: "nat \<Rightarrow> nat list" where
  "encode_code_point c =
     (if c < 0x80 then [c]
      else if c < 0x800 then [0xC0 + c div 64, 0x80 + c mod 64]
      else if 0xD800 \<le> c \<and> c \<le> 0xDFFF then [0xEF, 0xBF, 0xBD]
      else if c < 0x10000
        then [0xE0 + c div 64 div 64, 0x80 + c div 64 mod 64, 0x80 + c mod 64]
      else [0xF0 + c div 64 div 64 div 64, 0x80 + c div 64 div 64 mod 64,
            0x80 + c div 64 mod 64, 0x80 + c mod 64])"

definition utf8_decode :: "string \<Rightarrow> nat list" where
  "utf8_decode bytes = decode_bytes (map of_char bytes)"

definition utf8_encode :: "nat list \<Rightarrow> string" where
  "utf8_encode text = map char_of (concat (map encode_code_point text))"

text \<open>
  Well-formed UTF-8, as the Unicode standard tabulates it: one byte below \<open>80\<close>; \<open>C2..DF\<close>
  and a continuation byte; \<open>E0..EF\<close> and two; \<open>F0..F4\<close> and three, the first continuation
  byte in the narrowed range.
\<close>

fun well_formed_bytes :: "nat list \<Rightarrow> bool" where
  "well_formed_bytes [] = True"
| "well_formed_bytes (b # bs) =
     (if b < 0x80 then well_formed_bytes bs
      else if 0xC2 \<le> b \<and> b \<le> 0xDF then
        (case bs of
           c1 # bs1 \<Rightarrow> continuation 0x80 0xBF c1 \<and> well_formed_bytes bs1
         | _ \<Rightarrow> False)
      else if 0xE0 \<le> b \<and> b \<le> 0xEF then
        (case bs of
           c1 # c2 # bs2 \<Rightarrow>
             continuation (lower_bound b) (upper_bound b) c1 \<and> continuation 0x80 0xBF c2
             \<and> well_formed_bytes bs2
         | _ \<Rightarrow> False)
      else if 0xF0 \<le> b \<and> b \<le> 0xF4 then
        (case bs of
           c1 # c2 # c3 # bs3 \<Rightarrow>
             continuation (lower_bound b) (upper_bound b) c1 \<and> continuation 0x80 0xBF c2
             \<and> continuation 0x80 0xBF c3 \<and> well_formed_bytes bs3
         | _ \<Rightarrow> False)
      else False)"

definition well_formed_utf8 :: "string \<Rightarrow> bool" where
  "well_formed_utf8 bytes = well_formed_bytes (map of_char bytes)"

text \<open>
  \<open>fs.readFileSync(path, 'utf8')\<close> on the output directory; \<open>None\<close> stands for the
  exception on a missing file (the script reads only after \<open>existsSync\<close>).
\<close>

definition readFileSync :: "dir \<Rightarrow> path \<Rightarrow> nat list option" where
  "readFileSync d p = map_option utf8_decode (map_of d p)"

text \<open>
  The test \<open>/^\s*$/\<close> on one line: every code point is white space or a line
  terminator of ECMAScript.
\<close>

definition is_space :: "nat \<Rightarrow> bool" where
  "is_space c =
     (c \<in> set [0x09, 0x0A, 0x0B, 0x0C, 0x0D, 0x20, 0xA0, 0x1680, 0x2028, 0x2029, 0x202F,
                0x205F, 0x3000, 0xFEFF]
      \<or> (0x2000 \<le> c \<and> c \<le> 0x200A))"

definition blank_line :: "string \<Rightarrow> bool" where
  "blank_line line = list_all is_space (utf8_decode line)"

text \<open>JavaScript truthiness of a value that is \<open>null\<close> or a string.\<close>

fun truthy :: "'a list option \<Rightarrow> bool" where
  "truthy None = False"
| "truthy (Some t) = (t \<noteq> [])"

text \<open>Comparison of two attribute values without regard to the case of ASCII letters.\<close>

definition ascii_lower :: "nat \<Rightarrow> nat" where
  "ascii_lower c = (if 0x41 \<le> c \<and> c \<le> 0x5A then c + 0x20 else c)"

definition ascii_case_insensitive_eq :: "string \<Rightarrow> string \<Rightarrow> bool" where
  "ascii_case_insensitive_eq a b =
     (map (\<lambda>c. ascii_lower (of_char c)) a = map (\<lambda>c. ascii_lower (of_char c)) b)"

subsection \<open>The page as the in-page script sees it\<close>

text \<open>
  The elements of the loaded page in document order, each with its local name and its
  attributes as the HTML parser leaves them (names in lower case, no attribute twice).
  \<open>link\<close> elements have no children, so removing one removes one entry of the list.
\<close>

record element =
  tag :: string
  attrs :: "(string \<times> string) list"

type_synonym document = "element list"

datatype js_error = TypeError | ToolError

subsection \<open>The environment of one run\<close>

datatype call =
    GitLog | Rimraf | RollupBundle | BundleGenerate | Glob string | CssoMinify
  | PptrLaunch | BrowserPages | SetJavaScriptEnabled | PageGoto | PageEvaluate
  | PageContent | BrowserClose | Ncp path | InjectManifest

record minify_output =
  min_error :: "string option"
  min_code :: string

text \<open>
  \<open>rejects c\<close>: the external call \<open>c\<close> throws, or its promise rejects, in this run.
  \<open>left_behind\<close> are the files a failing \<open>rimraf\<close> did not delete, \<open>copied_early\<close> the
  files a failing \<open>ncp\<close> had already copied. The other fields are what the tools return
  when they succeed.
\<close>

record env =
  platform :: string
  dirname :: path
  package_version :: string
  clock_start :: int
  clock_finish :: int
  rejects :: "call \<Rightarrow> bool"
  left_behind :: "path \<Rightarrow> bool"
  copied_early :: "path \<Rightarrow> bool"
  git_stdout :: string
  bundle_code :: string
  uglify_minify :: "string \<Rightarrow> minify_output"
  glob_files :: "string \<Rightarrow> path list"
  src_file :: "path \<Rightarrow> string option"
  src_tree :: "path \<Rightarrow> (path \<times> string) list"
  css_rules :: "string \<Rightarrow> string list"
  css_compress :: "string \<Rightarrow> string"
  css_restructure :: "string list \<Rightarrow> string list"
  page_dom :: "string \<Rightarrow> document"
  resolve_url :: "string \<Rightarrow> string"
  page_serialize :: "document \<Rightarrow> string"
  revision_hash :: "string \<Rightarrow> string"
  inject_text :: "string \<Rightarrow> (path \<times> string) list \<Rightarrow> string"

definition SRC_PATH :: "env \<Rightarrow> path" where
  "SRC_PATH e = path_join (dirname e) ''src''"

subsection \<open>The state of the process\<close>

datatype line =
    TimeEndLabel string
  | ErrorLine string
  | PrecacheLine nat rat
  | DoneLine string rat

record state =
  dst :: dir
  browser_open :: bool
  console :: "line list"

text \<open>
  How a step ends: it returns (\<open>Continue\<close>), it calls \<open>process.exit\<close>, or a rejection
  leaves the \<open>async\<close> function uncaught (\<open>Rejected\<close>; no \<open>try\<close> or \<open>catch\<close> exists in
  the script).
\<close>

datatype outcome = Continue | Exit nat | Rejected

definition print :: "line \<Rightarrow> state \<Rightarrow> state" where
  "print l s = s\<lparr>console := console s @ [l]\<rparr>"

definition write_dst :: "path \<Rightarrow> string \<Rightarrow> state \<Rightarrow> state" where
  "write_dst p content s = s\<lparr>dst := writeFileSync p content (dst s)\<rparr>"

text \<open>
  \<open>console.time\<close> starts a timer and prints nothing; \<open>console.timeEnd\<close> prints the label
  with the elapsed time, of which the label is kept. A callback that does not return
  leaves the timer running.
\<close>

definition step :: "string \<Rightarrow> (state \<Rightarrow> outcome \<times> state) \<Rightarrow> state \<Rightarrow> outcome \<times> state" where
  "step name callback s =
     (case callback s of
        (Continue, s') \<Rightarrow> (Continue, print (TimeEndLabel name) s')
      | r \<Rightarrow> r)"

fun run_steps :: "(state \<Rightarrow> outcome \<times> state) list \<Rightarrow> state \<Rightarrow> outcome \<times> state" where
  "run_steps [] s = (Continue, s)"
| "run_steps (f # fs) s =
     (case f s of (Continue, s') \<Rightarrow> run_steps fs s' | r \<Rightarrow> r)"

subsection \<open>\<open>generateVersion\<close>\<close>

definition generateVersion :: "env \<Rightarrow> js_error + string" where
  "generateVersion e =
     (if rejects e GitLog then Inl ToolError
      else Inr (package_version e @ ''+'' @ git_stdout e))"

subsection \<open>Step 1: cleanup output folder\<close>

definition cleanup_output :: "env \<Rightarrow> state \<Rightarrow> outcome \<times> state" where
  "cleanup_output e s =
     (let cnamePath = ''CNAME'';
          cnameText = (if existsSync (dst s) cnamePath then readFileSync (dst s) cnamePath
                       else None)
      in if rejects e Rimraf
         then (Rejected, s\<lparr>dst := filter (\<lambda>(p, c). left_behind e p) (dst s)\<rparr>)
         else (let s1 = s\<lparr>dst := []\<rparr>
               in (Continue,
                   if truthy cnameText
                   then write_dst cnamePath
                          (utf8_encode (case cnameText of Some t \<Rightarrow> t | None \<Rightarrow> [])) s1
                   else s1)))"

subsection \<open>Step 2: generate index.js\<close>

definition js_header :: string where
  "js_header = ''/* THIS FILE IS GENERATED BY build.js */'' @ nl @ nl"

definition versionScript :: "string \<Rightarrow> string" where
  "versionScript v = ''window.__WEBSITE_VERSION__ = '' @ [CHR 0x22] @ v @ [CHR 0x22] @ '';'' @ nl"

definition generate_index_js :: "env \<Rightarrow> string \<Rightarrow> state \<Rightarrow> outcome \<times> state" where
  "generate_index_js e BUILD_VERSION s =
     (if rejects e RollupBundle \<or> rejects e BundleGenerate then (Rejected, s)
      else (let result = uglify_minify e (bundle_code e)
            in case min_error result of
                 Some err \<Rightarrow> (Exit 1, print (ErrorLine (''JS Minification failed: '' @ err)) s)
               | None \<Rightarrow>
                   (Continue,
                    write_dst ''index.js''
                      (js_header @ versionScript BUILD_VERSION @ min_code result) s)))"

subsection \<open>Step 3: generate style.css\<close>

definition css_header :: string where
  "css_header = ''/* THIS FILE IS GENERATED BY build.js */'' @ nl @ nl"

text \<open>
  Modelled from the spec: \<open>minify\<close> of the package \<open>csso\<close>, which is not part of the
  script. The spec gives its contract: concatenated CSS and a restructure flag in,
  minified CSS out; without restructuring the rules and selectors stay in their order
  and only white space and redundancy are stripped. So the style sheet is read as its
  sequence of rules (\<open>css_rules\<close>), each rule is compressed on its own (\<open>css_compress\<close>),
  and the rules are merged and reordered first (\<open>css_restructure\<close>) only when the flag is
  set.
\<close>

definition csso_minify :: "env \<Rightarrow> string \<Rightarrow> bool \<Rightarrow> string" where
  "csso_minify e css restructure =
     concat (map (css_compress e)
               (if restructure then css_restructure e (css_rules e css) else css_rules e css))"

definition globAsync :: "env \<Rightarrow> path \<Rightarrow> string \<Rightarrow> js_error + path list" where
  "globAsync e cwd pattern =
     (if rejects e (Glob pattern) then Inl ToolError
      else Inr (map (path_join cwd) (glob_files e pattern)))"

fun read_all :: "env \<Rightarrow> path list \<Rightarrow> js_error + string list" where
  "read_all e [] = Inr []"
| "read_all e (p # ps) =
     (case src_file e p of
        None \<Rightarrow> Inl ToolError
      | Some t \<Rightarrow> (case read_all e ps of Inl err \<Rightarrow> Inl err | Inr ts \<Rightarrow> Inr (t # ts)))"

definition generate_style_css :: "env \<Rightarrow> state \<Rightarrow> outcome \<times> state" where
  "generate_style_css e s =
     (case globAsync e (SRC_PATH e) ''ui/**/*.css'' of
        Inl err \<Rightarrow> (Rejected, s)
      | Inr ui \<Rightarrow>
     (case globAsync e (SRC_PATH e) ''pptr/**/*.css'' of
        Inl err \<Rightarrow> (Rejected, s)
      | Inr pptr \<Rightarrow>
     (case globAsync e (SRC_PATH e) ''third_party/**/*.css'' of
        Inl err \<Rightarrow> (Rejected, s)
      | Inr third \<Rightarrow>
     (case read_all e (ui @ pptr @ third) of
        Inl err \<Rightarrow> (Rejected, s)
      | Inr styles \<Rightarrow>
          if rejects e CssoMinify then (Rejected, s)
          else (Continue,
                write_dst ''style.css''
                  (css_header @ csso_minify e (join nl styles) False) s)))))"

subsection \<open>Step 4: generate index.html\<close>

text \<open>
  The selector \<open>link[rel=stylesheet]\<close>. In an HTML document the value of \<open>rel\<close> is
  compared without regard to the case of ASCII letters.
\<close>

definition selector_link_stylesheet :: "element \<Rightarrow> bool" where
  "selector_link_stylesheet el =
     (tag el = ''link'' \<and>
      (case map_of (attrs el) ''rel'' of
         None \<Rightarrow> False
       | Some v \<Rightarrow> ascii_case_insensitive_eq v ''stylesheet''))"

text \<open>The \<open>href\<close> property: the resolved URL of the attribute, empty without the attribute.\<close>

definition href_prop :: "(string \<Rightarrow> string) \<Rightarrow> element \<Rightarrow> string" where
  "href_prop resolve el =
     (case map_of (attrs el) ''href'' of None \<Rightarrow> [] | Some h \<Rightarrow> resolve h)"

definition set_href :: "string \<Rightarrow> element \<Rightarrow> element" where
  "set_href h el = el\<lparr>attrs := AList.update ''href'' h (attrs el)\<rparr>"

definition same_origin_stylesheet :: "(string \<Rightarrow> string) \<Rightarrow> element \<Rightarrow> bool" where
  "same_origin_stylesheet resolve el =
     (selector_link_stylesheet el \<and> prefix ''file://'' (href_prop resolve el))"

text \<open>
  The function passed to \<open>page.evaluate\<close>. A node is referred to by its position in the
  document: \<open>links\<close> are the positions of the selected elements, \<open>shift\<close> takes the first,
  whose \<open>href\<close> is assigned, and \<open>forEach\<close> removes the nodes at the remaining positions.
  Shifting from an empty array gives \<open>undefined\<close>, and the assignment throws.
\<close>

definition rewrite_links :: "(string \<Rightarrow> string) \<Rightarrow> document \<Rightarrow> js_error + document" where
  "rewrite_links resolve doc =
     (let nodes = enumerate 0 doc;
          links = map fst (filter (\<lambda>(i, el). same_origin_stylesheet resolve el) nodes)
      in case links of
           [] \<Rightarrow> Inl TypeError
         | first # rest \<Rightarrow>
             Inr (map snd
                   (filter (\<lambda>(i, el). i \<notin> set rest)
                     (map (\<lambda>(i, el). (i, if i = first then set_href ''/style.css'' el else el))
                        nodes))))"

definition html_header :: string where
  "html_header = ''<!-- THIS FILE IS GENERATED BY build.js -->'' @ nl @ nl"

definition strip_blank_lines :: "string \<Rightarrow> string" where
  "strip_blank_lines content =
     join nl (filter (\<lambda>line. \<not> blank_line line) (split (CHR 0x0A) content))"

definition index_url :: "env \<Rightarrow> string" where
  "index_url e = ''file://'' @ path_join (SRC_PATH e) ''index.html''"

definition generate_index_html :: "env \<Rightarrow> state \<Rightarrow> outcome \<times> state" where
  "generate_index_html e s =
     (if rejects e PptrLaunch then (Rejected, s)
      else (let s1 = s\<lparr>browser_open := True\<rparr>
            in if rejects e BrowserPages \<or> rejects e SetJavaScriptEnabled \<or> rejects e PageGoto
               then (Rejected, s1)
               else (let doc = page_dom e (index_url e)
                     in if rejects e PageEvaluate then (Rejected, s1)
                        else (case rewrite_links (resolve_url e) doc of
                                Inl err \<Rightarrow> (Rejected, s1)
                              | Inr doc' \<Rightarrow>
                                  if rejects e PageContent then (Rejected, s1)
                                  else (let indexContent =
                                              html_header @ strip_blank_lines (page_serialize e doc')
                                        in if rejects e BrowserClose then (Rejected, s1)
                                           else (Continue,
                                                 write_dst ''index.html'' indexContent
                                                   (s1\<lparr>browser_open := False\<rparr>)))))))"

subsection \<open>Step 5: copy images and favicons\<close>

definition copy_files :: "path \<Rightarrow> (path \<times> string) list \<Rightarrow> dir \<Rightarrow> dir" where
  "copy_files to files d = fold (\<lambda>(rel, content). writeFileSync (path_join to rel) content) files d"

definition cpAsync :: "env \<Rightarrow> path \<Rightarrow> path \<Rightarrow> state \<Rightarrow> outcome \<times> state" where
  "cpAsync e from to s =
     (if rejects e (Ncp from)
      then (Rejected,
            s\<lparr>dst := copy_files to (filter (\<lambda>(rel, c). copied_early e (path_join to rel))
                                     (src_tree e from)) (dst s)\<rparr>)
      else (Continue, s\<lparr>dst := copy_files to (src_tree e from) (dst s)\<rparr>))"

definition copy_images_and_favicons :: "env \<Rightarrow> state \<Rightarrow> outcome \<times> state" where
  "copy_images_and_favicons e s =
     run_steps [cpAsync e (path_join (SRC_PATH e) ''images'') ''images'',
                cpAsync e (path_join (SRC_PATH e) ''favicons'') ''favicons''] s"

subsection \<open>Step 6: generate sw.js\<close>

record manifest_config =
  swSrc :: path
  swDest :: path
  globIgnores :: "string list"
  globPatterns :: "string list"

text \<open>
  Modelled from the spec: \<open>injectManifest\<close> of the package \<open>workbox-build\<close>, which is not
  part of the script. The spec gives its contract: template, output directory, exclusion
  list and glob patterns in; injected script, file count and byte size out; the manifest
  is the list of asset paths with revision hashes of the files of the output directory,
  without the excluded ones. The pattern \<open>**/*\<close> stands for every file, any other
  pattern for the path it spells.
\<close>

definition glob_match :: "string \<Rightarrow> path \<Rightarrow> bool" where
  "glob_match pattern p = (if pattern = ''**/*'' then True else pattern = p)"

text \<open>Modelled from the spec: the files of the output directory that the injector lists.\<close>

definition globbed :: "manifest_config \<Rightarrow> dir \<Rightarrow> dir" where
  "globbed cfg d =
     filter (\<lambda>(p, c). list_ex (\<lambda>g. glob_match g p) (globPatterns cfg)
                      \<and> \<not> list_ex (\<lambda>g. glob_match g p) (globIgnores cfg)) d"

text \<open>Modelled from the spec: the manifest, asset paths with revision hashes.\<close>

definition precache_manifest :: "env \<Rightarrow> manifest_config \<Rightarrow> dir \<Rightarrow> (path \<times> string) list" where
  "precache_manifest e cfg d = map (\<lambda>(p, c). (p, revision_hash e c)) (globbed cfg d)"

text \<open>
  Modelled from the spec: the call itself, which reads the template, writes the injected
  script and returns the file count and the byte size.
\<close>

definition injectManifest ::
  "env \<Rightarrow> manifest_config \<Rightarrow> state \<Rightarrow> js_error + ((nat \<times> nat) \<times> state)" where
  "injectManifest e cfg s =
     (if rejects e InjectManifest then Inl ToolError
      else (case src_file e (swSrc cfg) of
              None \<Rightarrow> Inl ToolError
            | Some template \<Rightarrow>
                (let files = globbed cfg (dst s);
                     manifest = precache_manifest e cfg (dst s)
                 in Inr ((length manifest, sum_list (map (\<lambda>(p, c). length c) files)),
                         write_dst (swDest cfg) (inject_text e template manifest) s))))"

text \<open>
  A Number is an IEEE double; it is represented by its value, a rational. The result of
  an arithmetic operation is the exact result rounded to the nearest double, a tie to
  the even significand (\<open>round_double\<close>): with \<open>2 ^ e \<le> \<bar>x\<bar> < 2 ^ (e + 1)\<close> the doubles
  around \<open>x\<close> are the multiples of \<open>2 ^ (e - 52)\<close>, and of \<open>2 ^ - 1074\<close> in the subnormal
  range. The byte size and the clock readings are themselves Numbers, and the results
  here are smaller in magnitude than the operands, so no operation overflows.
\<close>

definition binary_exponent :: "rat \<Rightarrow> int" where
  "binary_exponent x =
     (let (p, q) = quotient_of \<bar>x\<bar>;
          d = bitlen p - bitlen q
      in if power_int 2 d \<le> \<bar>x\<bar> then d else d - 1)"

definition round_half_even :: "rat \<Rightarrow> int" where
  "round_half_even r =
     (let f = \<lfloor>r\<rfloor>; d = r - of_int f
      in if d < 1 / 2 then f else if 1 / 2 < d then f + 1 else if even f then f else f + 1)"

definition round_double :: "rat \<Rightarrow> rat" where
  "round_double x =
     (if x = 0 then 0
      else (let u = power_int 2 (max (binary_exponent x - 52) (- 1074))
            in of_int (round_half_even (x / u)) * u))"

text \<open>
  \<open>Math.round\<close> gives the integer nearest to its argument, a tie towards \<open>+\<infinity>\<close>; the
  result is a double again.
\<close>

definition Math_round :: "rat \<Rightarrow> int" where
  "Math_round x = \<lfloor>x + 1 / 2\<rfloor>"

text \<open>\<open>Math.round(size / 1024 * 100) / 100\<close>, every operation rounded.\<close>

definition kbSize :: "nat \<Rightarrow> rat" where
  "kbSize sz =
     round_double
       (of_int (Math_round (round_double (round_double (of_nat sz / 1024) * 100))) / 100)"

definition sw_config :: "env \<Rightarrow> manifest_config" where
  "sw_config e =
     \<lparr>swSrc = path_join (SRC_PATH e) ''sw-template.js'',
      swDest = ''sw.js'',
      globIgnores = [''CNAME''],
      globPatterns = [''**/*'']\<rparr>"

definition generate_sw_js :: "env \<Rightarrow> state \<Rightarrow> outcome \<times> state" where
  "generate_sw_js e s =
     (case injectManifest e (sw_config e) s of
        Inl err \<Rightarrow> (Rejected, s)
      | Inr ((cnt, sz), s') \<Rightarrow> (Continue, print (PrecacheLine cnt (kbSize sz)) s'))"

subsection \<open>The script\<close>

text \<open>\<open>Math.round((Date.now() - startTime) / 100) / 10\<close>, every operation rounded.\<close>

definition seconds :: "int \<Rightarrow> int \<Rightarrow> rat" where
  "seconds now startTime =
     round_double
       (of_int (Math_round (round_double (round_double (of_int now - of_int startTime) / 100)))
          / 10)"

definition steps :: "env \<Rightarrow> string \<Rightarrow> (state \<Rightarrow> outcome \<times> state) list" where
  "steps e BUILD_VERSION =
     [step ''1. cleanup output folder'' (cleanup_output e),
      step ''2. generate index.js'' (generate_index_js e BUILD_VERSION),
      step ''3. generate style.css'' (generate_style_css e),
      step ''4. generate index.html'' (generate_index_html e),
      step ''5. copy images and favicons'' (copy_images_and_favicons e),
      step ''6. generate sw.js'' (generate_sw_js e)]"

definition build :: "env \<Rightarrow> state \<Rightarrow> outcome \<times> state" where
  "build e s =
     (if platform e = ''win32''
      then (Exit 1, print (ErrorLine ''ERROR: build is not supported on Win32'') s)
      else (case generateVersion e of
              Inl err \<Rightarrow> (Rejected, s)
            | Inr BUILD_VERSION \<Rightarrow>
                (case run_steps (steps e BUILD_VERSION) s of
                   (Continue, s') \<Rightarrow>
                     (Exit 0,
                      print (DoneLine BUILD_VERSION (seconds (clock_finish e) (clock_start e))) s')
                 | r \<Rightarrow> r)))"

subsection \<open>A sample run\<close>

text \<open>
  A build of a site with two style sheets, one image and one icon, all tools succeeding.
  Its style sheets hold one rule on each line.
\<close>

definition demo_env :: env where
  "demo_env =
     \<lparr>platform = ''linux'',
      dirname = ''/site'',
      package_version = ''1.0.0'',
      clock_start = 1000,
      clock_finish = 3260,
      rejects = (\<lambda>c. False),
      left_behind = (\<lambda>p. False),
      copied_early = (\<lambda>p. False),
      git_stdout = ''abc1234'',
      bundle_code = ''f ( ) ;'',
      uglify_minify = (\<lambda>c. \<lparr>min_error = None, min_code = filter (\<lambda>x. x \<noteq> CHR '' '') c\<rparr>),
      glob_files = (\<lambda>g. if g = ''ui/**/*.css'' then [''ui/a.css'']
                         else if g = ''pptr/**/*.css'' then [''pptr/b.css''] else []),
      src_file = (\<lambda>p. if p = ''/site/src/ui/a.css'' then Some ''a { }''
                       else if p = ''/site/src/pptr/b.css'' then Some ''b { }''
                       else if p = ''/site/src/sw-template.js'' then Some ''sw'' else None),
      src_tree = (\<lambda>p. if p = ''/site/src/images'' then [(''logo.png'', ''PNG'')]
                       else if p = ''/site/src/favicons'' then [(''icon.ico'', ''ICO'')] else []),
      css_rules = split (CHR 0x0A),
      css_compress = filter (\<lambda>x. x \<noteq> CHR '' ''),
      css_restructure = rev,
      page_dom = (\<lambda>url. [\<lparr>tag = ''link'', attrs = [(''rel'', ''stylesheet''), (''href'', ''ui/a.css'')]\<rparr>,
                          \<lparr>tag = ''link'', attrs = [(''rel'', ''Stylesheet''), (''href'', ''pptr/b.css'')]\<rparr>]),
      resolve_url = (\<lambda>h. if prefix ''https://'' h then h else ''file:///site/src/'' @ h),
      page_serialize = (\<lambda>doc. concat (map tag doc)),
      revision_hash = (\<lambda>c. c),
      inject_text = (\<lambda>template manifest. template @ concat (map fst manifest))\<rparr>"

definition demo_state :: "string \<Rightarrow> state" where
  "demo_state cname =
     \<lparr>dst = [(''CNAME'', cname), (''old.html'', ''x'')], browser_open = False, console = []\<rparr>"

text \<open>An output directory as step 6 may find it, with two files besides the marker file.\<close>

definition demo_populated :: state where
  "demo_populated =
     \<lparr>dst = [(''CNAME'', ''pptr.dev''),
             (''index.js'', replicate 1536 (CHR ''x'')),
             (''index.html'', replicate 515 (CHR ''y''))],
      browser_open = False,
      console = []\<rparr>"

section \<open>Basic facts about the state and the steps\<close>

lemmas script_defs =
  build_def generateVersion_def steps_def step_def print_def
  cleanup_output_def existsSync_def readFileSync_def write_dst_def writeFileSync_def
  generate_index_js_def generate_style_css_def csso_minify_def globAsync_def SRC_PATH_def
  path_join_def generate_index_html_def index_url_def
  rewrite_links_def same_origin_stylesheet_def selector_link_stylesheet_def
  ascii_case_insensitive_eq_def ascii_lower_def href_prop_def
  set_href_def copy_images_and_favicons_def cpAsync_def copy_files_def generate_sw_js_def
  injectManifest_def sw_config_def globbed_def precache_manifest_def glob_match_def

subsection \<open>UTF-8: well-formed bytes survive decoding and encoding\<close>

lemma decode_bytes_nonempty: "decode_bytes (b # bs) \<noteq> []"
  by (simp split: list.splits)

lemma split64: "r < 64 \<Longrightarrow> (q * 64 + r) div 64 = q \<and> (q * 64 + r) mod 64 = (r::nat)"
  by simp

lemma encode2:
  assumes "0xC2 \<le> b" "b \<le> 0xDF" "continuation 0x80 0xBF c1"
  shows "encode_code_point ((b - 0xC0) * 64 + (c1 - 0x80)) = [b, c1]"
proof -
  define x where "x = b - 0xC0"
  define y where "y = c1 - 0x80"
  define c where "c = x * 64 + y"
  have b: "b = 0xC0 + x" and c1: "c1 = 0x80 + y" and x: "2 \<le> x" "x < 32" and y: "y < 64"
    using assms unfolding continuation_def x_def y_def by auto
  have d: "c div 64 = x" and m: "c mod 64 = y"
    using split64 [OF y, of x] unfolding c_def by blast+
  have ge: "0x80 \<le> c" and lt: "c < 0x800"
    using x y unfolding c_def by auto
  have "encode_code_point c = [0xC0 + x, 0x80 + y]"
    using ge lt by (simp add: encode_code_point_def d m)
  moreover have "[0xC0 + x, 0x80 + y] = [b, c1]"
    by (simp only: b c1)
  moreover have "c = (b - 0xC0) * 64 + (c1 - 0x80)"
    by (simp only: c_def x_def y_def)
  ultimately show ?thesis by (simp only:)
qed

lemma encode3:
  assumes "0xE0 \<le> b" "b \<le> 0xEF" "continuation (lower_bound b) (upper_bound b) c1"
    "continuation 0x80 0xBF c2"
  shows "encode_code_point (((b - 0xE0) * 64 + (c1 - 0x80)) * 64 + (c2 - 0x80)) = [b, c1, c2]"
proof -
  define x where "x = b - 0xE0"
  define y where "y = c1 - 0x80"
  define z where "z = c2 - 0x80"
  define c where "c = (x * 64 + y) * 64 + z"
  have b: "b = 0xE0 + x" and c1: "c1 = 0x80 + y" and c2: "c2 = 0x80 + z"
    and x: "x < 16" and y: "y < 64" and z: "z < 64"
    and lo: "x = 0 \<longrightarrow> 32 \<le> y" and hi: "x = 13 \<longrightarrow> y < 32"
    using assms unfolding continuation_def lower_bound_def upper_bound_def x_def y_def z_def
    by (auto split: if_splits)
  have d1: "c div 64 = x * 64 + y" and m1: "c mod 64 = z"
    using split64 [OF z, of "x * 64 + y"] unfolding c_def by blast+
  have d2: "c div 64 div 64 = x" and m2: "c div 64 mod 64 = y"
    using split64 [OF y, of x] unfolding d1 by blast+
  have ge: "0x800 \<le> c" using lo y unfolding c_def by (cases "x = 0") auto
  have lt: "c < 0x10000" using x y z unfolding c_def by auto
  have ns: "\<not> (0xD800 \<le> c \<and> c \<le> 0xDFFF)"
    using hi x y z unfolding c_def by (cases "x = 13"; cases "x < 13") auto
  have n1: "\<not> c < 0x80" and n2: "\<not> c < 0x800"
    using ge by auto
  have "encode_code_point c = [0xE0 + x, 0x80 + y, 0x80 + z]"
    unfolding encode_code_point_def by (simp only: n1 n2 ns lt if_False if_True d2 m2 m1)
  moreover have "[0xE0 + x, 0x80 + y, 0x80 + z] = [b, c1, c2]"
    by (simp only: b c1 c2)
  moreover have "c = ((b - 0xE0) * 64 + (c1 - 0x80)) * 64 + (c2 - 0x80)"
    by (simp only: c_def x_def y_def z_def)
  ultimately show ?thesis by (simp only:)
qed

lemma encode4:
  assumes "0xF0 \<le> b" "b \<le> 0xF4" "continuation (lower_bound b) (upper_bound b) c1"
    "continuation 0x80 0xBF c2" "continuation 0x80 0xBF c3"
  shows "encode_code_point ((((b - 0xF0) * 64 + (c1 - 0x80)) * 64 + (c2 - 0x80)) * 64
           + (c3 - 0x80)) = [b, c1, c2, c3]"
proof -
  define x where "x = b - 0xF0"
  define y where "y = c1 - 0x80"
  define z where "z = c2 - 0x80"
  define w where "w = c3 - 0x80"
  define c where "c = ((x * 64 + y) * 64 + z) * 64 + w"
  have b: "b = 0xF0 + x" and c1: "c1 = 0x80 + y" and c2: "c2 = 0x80 + z" and c3: "c3 = 0x80 + w"
    and x: "x < 5" and y: "y < 64" and z: "z < 64" and w: "w < 64"
    and lo: "x = 0 \<longrightarrow> 16 \<le> y"
    using assms unfolding continuation_def lower_bound_def upper_bound_def x_def y_def z_def w_def
    by (auto split: if_splits)
  have d1: "c div 64 = (x * 64 + y) * 64 + z" and m1: "c mod 64 = w"
    using split64 [OF w, of "(x * 64 + y) * 64 + z"] unfolding c_def by blast+
  have d2: "c div 64 div 64 = x * 64 + y" and m2: "c div 64 mod 64 = z"
    using split64 [OF z, of "x * 64 + y"] unfolding d1 by blast+
  have d3: "c div 64 div 64 div 64 = x" and m3: "c div 64 div 64 mod 64 = y"
    using split64 [OF y, of x] unfolding d2 by blast+
  have ge: "0x10000 \<le> c" using lo y unfolding c_def by (cases "x = 0") auto
  have n1: "\<not> c < 0x80" and n2: "\<not> c < 0x800" and n3: "\<not> c < 0x10000"
    and ns: "\<not> (0xD800 \<le> c \<and> c \<le> 0xDFFF)"
    using ge by auto
  have "encode_code_point c = [0xF0 + x, 0x80 + y, 0x80 + z, 0x80 + w]"
    unfolding encode_code_point_def by (simp only: n1 n2 n3 ns if_False d3 m3 m2 m1)
  moreover have "[0xF0 + x, 0x80 + y, 0x80 + z, 0x80 + w] = [b, c1, c2, c3]"
    by (simp only: b c1 c2 c3)
  moreover have "c = (((b - 0xF0) * 64 + (c1 - 0x80)) * 64 + (c2 - 0x80)) * 64 + (c3 - 0x80)"
    by (simp only: c_def x_def y_def z_def w_def)
  ultimately show ?thesis by (simp only:)
qed

lemma decode_well_formed:
  "well_formed_bytes bs \<Longrightarrow> concat (map encode_code_point (decode_bytes bs)) = bs"
proof (induction bs rule: decode_bytes.induct)
  case 1
  then show ?case by simp
next
  case (2 b bs)
  consider (one) "b < 0x80" | (two) "0xC2 \<le> b" "b \<le> 0xDF" | (three) "0xE0 \<le> b" "b \<le> 0xEF"
    | (four) "0xF0 \<le> b" "b \<le> 0xF4"
    using "2.prems" by (auto split: if_splits)
  then show ?case
  proof cases
    case one
    then show ?thesis using 2 by (simp add: encode_code_point_def)
  next
    case two
    then obtain c1 bs1 where bs: "bs = c1 # bs1" and k: "continuation 0x80 0xBF c1"
      and wf: "well_formed_bytes bs1"
      using "2.prems" by (auto split: list.splits)
    have "concat (map encode_code_point (decode_bytes bs1)) = bs1"
      using "2.IH"(2) two bs k wf by simp
    then show ?thesis using two bs k encode2 [OF two k] by simp
  next
    case three
    then obtain c1 c2 bs2 where bs: "bs = c1 # c2 # bs2"
      and k1: "continuation (lower_bound b) (upper_bound b) c1"
      and k2: "continuation 0x80 0xBF c2" and wf: "well_formed_bytes bs2"
      using "2.prems" by (auto split: list.splits)
    have "concat (map encode_code_point (decode_bytes bs2)) = bs2"
      using "2.IH"(4) three bs k1 k2 wf by simp
    then show ?thesis using three bs k1 k2 encode3 [OF three k1 k2] by simp
  next
    case four
    then obtain c1 c2 c3 bs3 where bs: "bs = c1 # c2 # c3 # bs3"
      and k1: "continuation (lower_bound b) (upper_bound b) c1"
      and k2: "continuation 0x80 0xBF c2" and k3: "continuation 0x80 0xBF c3"
      and wf: "well_formed_bytes bs3"
      using "2.prems" by (auto split: list.splits)
    have "concat (map encode_code_point (decode_bytes bs3)) = bs3"
      using "2.IH"(7) four bs k1 k2 k3 wf by simp
    then show ?thesis using four bs k1 k2 k3 encode4 [OF four k1 k2 k3] by simp
  qed
qed

lemma utf8_round_trip:
  assumes "well_formed_utf8 bytes"
  shows "utf8_encode (utf8_decode bytes) = bytes"
proof -
  have "concat (map encode_code_point (decode_bytes (map of_char bytes))) = map of_char bytes"
    using assms by (simp add: well_formed_utf8_def decode_well_formed)
  then show ?thesis by (simp add: utf8_encode_def utf8_decode_def)
qed

lemma utf8_decode_eq_Nil [simp]: "utf8_decode bytes = [] \<longleftrightarrow> bytes = []"
proof (cases bytes)
  case Nil
  then show ?thesis by (simp add: utf8_decode_def)
next
  case (Cons b bs)
  then show ?thesis
    using decode_bytes_nonempty [of "of_char b" "map of_char bs"]
    by (simp add: utf8_decode_def del: decode_bytes.simps)
qed

lemma demo_cname: "utf8_encode (utf8_decode ''pptr.dev'') = ''pptr.dev''"
  by (rule utf8_round_trip) (simp add: well_formed_utf8_def)

lemma demo_invalid_cname: "utf8_encode (utf8_decode [CHR 0xFF]) = [CHR 0xEF, CHR 0xBF, CHR 0xBD]"
  by (simp add: utf8_encode_def utf8_decode_def encode_code_point_def char_of_eq_iff)

subsection \<open>Doubles: when the rounding is exact, and how far it goes\<close>

lemma bitlen_pos: "0 < x \<Longrightarrow> 0 < bitlen x"
  using bitlen_bounds [of x] by (cases "0 < bitlen x") auto

lemma binary_exponent_le:
  assumes "x \<noteq> 0"
  shows "power_int 2 (binary_exponent x) \<le> \<bar>x\<bar>"
proof -
  obtain p q where pq: "quotient_of \<bar>x\<bar> = (p, q)"
    by (cases "quotient_of \<bar>x\<bar>")
  have q: "0 < q" using pq by (rule quotient_of_denom_pos)
  have x: "\<bar>x\<bar> = of_int p / of_int q" using pq by (rule quotient_of_div)
  have "0 < \<bar>x\<bar>" using assms by simp
  then have p: "0 < p" using q by (simp add: x zero_less_divide_iff)
  let ?d = "bitlen p - bitlen q"
  show ?thesis
  proof (cases "power_int 2 ?d \<le> \<bar>x\<bar>")
    case True
    then show ?thesis by (simp add: binary_exponent_def pq)
  next
    case False
    have bp: "0 < bitlen p" and bq: "0 < bitlen q"
      using p q by (simp_all add: bitlen_pos)
    have "2 ^ nat (bitlen p - 1) \<le> p" and "q < 2 ^ nat (bitlen q)"
      using bitlen_bounds [OF p] bitlen_bounds [OF q] by simp_all
    then have "(of_int (2 ^ nat (bitlen p - 1)) :: rat) \<le> of_int p"
      and "(of_int q :: rat) \<le> of_int (2 ^ nat (bitlen q))"
      by (simp_all only: of_int_le_iff less_imp_le)
    then have lo: "(power_int 2 (bitlen p - 1) :: rat) \<le> of_int p"
      and hi: "(of_int q :: rat) \<le> power_int 2 (bitlen q)"
      using bp bq by (simp_all add: power_int_def)
    have "(power_int 2 (?d - 1) :: rat) = power_int 2 (bitlen p - 1) / power_int 2 (bitlen q)"
      using power_int_diff [of "2::rat" "bitlen p - 1" "bitlen q"] by (simp add: algebra_simps)
    also have "\<dots> \<le> of_int p / of_int q"
      using lo hi p q by (intro frac_le) simp_all
    finally have "(power_int 2 (?d - 1) :: rat) \<le> \<bar>x\<bar>"
      by (simp only: x)
    moreover have "binary_exponent x = ?d - 1"
      using False by (simp add: binary_exponent_def pq)
    ultimately show ?thesis by simp
  qed
qed

lemma binary_exponent_less:
  assumes "x \<noteq> 0" and "\<bar>x\<bar> < power_int 2 n"
  shows "binary_exponent x < n"
proof (rule ccontr)
  assume "\<not> binary_exponent x < n"
  then have "(power_int 2 n :: rat) \<le> power_int 2 (binary_exponent x)"
    by (intro power_int_increasing) simp_all
  with binary_exponent_le [OF assms(1)] assms(2) show False by simp
qed

lemma round_half_even_int [simp]: "round_half_even (of_int n) = n"
  by (simp add: round_half_even_def)

lemma round_half_even_error: "\<bar>of_int (round_half_even r) - r\<bar> \<le> 1 / 2"
proof -
  have "of_int \<lfloor>r\<rfloor> \<le> r" and "r < of_int \<lfloor>r\<rfloor> + 1"
    by linarith+
  then show ?thesis
    by (auto simp: round_half_even_def Let_def abs_le_iff)
qed

lemma round_double_exact:
  assumes "x = of_int m * power_int 2 j" and "\<bar>m\<bar> < 2 ^ 53" and "- 1074 \<le> j"
  shows "round_double x = x"
proof (cases "x = 0")
  case True
  then show ?thesis by (simp add: round_double_def)
next
  case False
  let ?k = "max (binary_exponent x - 52) (- 1074)"
  have "\<bar>x\<bar> = of_int \<bar>m\<bar> * power_int 2 j"
    by (simp add: assms(1) abs_mult)
  also have "\<dots> < 2 ^ 53 * power_int 2 j"
  proof -
    have "(of_int \<bar>m\<bar> :: rat) < of_int (2 ^ 53)"
      using assms(2) by (simp only: of_int_less_iff)
    then show ?thesis by (intro mult_strict_right_mono) simp_all
  qed
  also have "\<dots> = power_int 2 (53 + j)"
    by (simp add: power_int_add)
  finally have "binary_exponent x < 53 + j"
    by (rule binary_exponent_less [OF False])
  then have k: "?k \<le> j" using assms(3) by simp
  have "(power_int 2 j :: rat) = power_int 2 (j - ?k) * power_int 2 ?k"
    using power_int_add [of "2::rat" "j - ?k" ?k] by simp
  also have "(power_int 2 (j - ?k) :: rat) = of_int (2 ^ nat (j - ?k))"
    using k by (simp add: power_int_def)
  finally have "x = of_int (m * 2 ^ nat (j - ?k)) * power_int 2 ?k"
    by (simp add: assms(1))
  then have "x / power_int 2 ?k = of_int (m * 2 ^ nat (j - ?k))"
    by (metis nonzero_mult_div_cancel_right power_int_eq_0_iff zero_neq_numeral)
  then have "round_double x = of_int (m * 2 ^ nat (j - ?k)) * power_int 2 ?k"
    using False by (simp only: round_double_def Let_def round_half_even_int if_False)
  with \<open>x = of_int (m * 2 ^ nat (j - ?k)) * power_int 2 ?k\<close> show ?thesis by simp
qed

lemma round_double_error:
  assumes "\<bar>x\<bar> < 2 ^ 47"
  shows "\<bar>round_double x - x\<bar> \<le> 1 / 128"
proof (cases "x = 0")
  case True
  then show ?thesis by (simp add: round_double_def)
next
  case False
  let ?k = "max (binary_exponent x - 52) (- 1074)"
  let ?u = "power_int 2 ?k :: rat"
  have "\<bar>x\<bar> < power_int 2 47" using assms by simp
  then have "binary_exponent x < 47"
    by (rule binary_exponent_less [OF False])
  then have "?k \<le> - 6" by simp
  then have "?u \<le> power_int 2 (- 6)"
    by (intro power_int_increasing) simp_all
  then have u: "?u \<le> 1 / 64" by (simp add: power_int_minus)
  have u0: "0 < ?u" by simp
  have "round_double x - x = (of_int (round_half_even (x / ?u)) - x / ?u) * ?u"
    using False u0 by (simp add: round_double_def Let_def algebra_simps)
  then have "\<bar>round_double x - x\<bar> = \<bar>of_int (round_half_even (x / ?u)) - x / ?u\<bar> * ?u"
    using u0 by (simp add: abs_mult)
  also have "\<dots> \<le> 1 / 2 * ?u"
    using round_half_even_error [of "x / ?u"] u0 by (intro mult_right_mono) simp_all
  also have "\<dots> \<le> 1 / 128" using u by simp
  finally show ?thesis .
qed

lemma Math_round_bounds: "x - 1 / 2 < of_int (Math_round x) \<and> of_int (Math_round x) \<le> x + 1 / 2"
  unfolding Math_round_def by linarith

lemma kbSize_exact:
  assumes "25 * sz < 2 ^ 53"
  shows "kbSize sz = round_double (of_int (Math_round (of_nat sz / 1024 * 100)) / 100)"
proof -
  have 1: "round_double (of_nat sz / 1024) = of_nat sz / 1024"
  proof (rule round_double_exact)
    show "(of_nat sz / 1024 :: rat) = of_int (int sz) * power_int 2 (- 10)"
      by (simp add: power_int_minus)
    show "\<bar>int sz\<bar> < 2 ^ 53" using assms by simp
  qed simp
  have 2: "round_double (of_nat sz / 1024 * 100) = of_nat sz / 1024 * 100"
  proof (rule round_double_exact)
    show "(of_nat sz / 1024 * 100 :: rat) = of_int (25 * int sz) * power_int 2 (- 8)"
      by (simp add: power_int_minus)
    show "\<bar>25 * int sz\<bar> < 2 ^ 53" using assms by (simp add: abs_mult)
  qed simp
  show ?thesis by (simp only: kbSize_def 1 2)
qed

lemma Math_round_after_division:
  assumes "\<bar>ms\<bar> < 2 ^ 53"
  shows "Math_round (round_double (of_int ms / 100)) = Math_round (of_int ms / 100)"
proof -
  define q where "q = ms div 100"
  define r where "r = ms mod 100"
  have ms: "ms = 100 * q + r" and r: "0 \<le> r" "r < 100"
    by (simp_all add: q_def r_def)
  let ?x = "of_int ms / 100 :: rat"
  have x: "?x = of_int q + of_int r / 100"
    by (simp add: ms)
  show ?thesis
  proof (cases "r = 50")
    case True
    have "round_double ?x = ?x"
    proof (rule round_double_exact)
      show "?x = of_int (2 * q + 1) * power_int 2 (- 1)"
        by (simp add: ms True power_int_minus field_simps)
      show "\<bar>2 * q + 1\<bar> < 2 ^ 53" using assms ms True by simp
    qed simp
    then show ?thesis by (simp only:)
  next
    case False
    have "\<bar>?x\<bar> < 2 ^ 47"
    proof -
      have "\<bar>?x\<bar> = of_int \<bar>ms\<bar> / 100" by simp
      also have "\<dots> < of_int (2 ^ 53) / 100"
      proof -
        have "(of_int \<bar>ms\<bar> :: rat) < of_int (2 ^ 53)"
          using assms by (simp only: of_int_less_iff)
        then show ?thesis by (rule divide_strict_right_mono) simp
      qed
      also have "\<dots> < 2 ^ 47" by simp
      finally show ?thesis .
    qed
    then have err: "\<bar>round_double ?x - ?x\<bar> \<le> 1 / 128"
      by (rule round_double_error)
    show ?thesis
    proof (cases "r < 50")
      case True
      then have "(of_int r :: rat) \<le> 49" and "(0 :: rat) \<le> of_int r"
        using r by simp_all
      then have "\<lfloor>round_double ?x + 1 / 2\<rfloor> = q" and "\<lfloor>?x + 1 / 2\<rfloor> = q"
        using err unfolding x by (intro floor_unique; linarith)+
      then show ?thesis by (simp add: Math_round_def)
    next
      case False
      with \<open>r \<noteq> 50\<close> have "51 \<le> r" by simp
      then have "(51 :: rat) \<le> of_int r" and "(of_int r :: rat) \<le> 99"
        using r by simp_all
      then have "\<lfloor>round_double ?x + 1 / 2\<rfloor> = q + 1" and "\<lfloor>?x + 1 / 2\<rfloor> = q + 1"
        using err unfolding x by (intro floor_unique; simp; linarith)+
      then show ?thesis by (simp add: Math_round_def)
    qed
  qed
qed

lemma seconds_exact:
  assumes "\<bar>now - startTime\<bar> < 2 ^ 53"
  shows "seconds now startTime =
           round_double (of_int (Math_round (of_int (now - startTime) / 100)) / 10)"
proof -
  have 0: "(of_int now - of_int startTime :: rat) = of_int (now - startTime)"
    by simp
  have 1: "round_double (of_int (now - startTime)) = of_int (now - startTime)"
  proof (rule round_double_exact)
    show "(of_int (now - startTime) :: rat) = of_int (now - startTime) * power_int 2 0"
      by simp
    show "\<bar>now - startTime\<bar> < 2 ^ 53" by (rule assms)
  qed simp
  show ?thesis
    by (simp only: seconds_def 0 1 Math_round_after_division [OF assms])
qed

subsection \<open>The state and the steps\<close>

lemma map_of_writeFileSync:
  "map_of (writeFileSync p content d) k = (if k = p then Some content else map_of d k)"
  by (simp add: writeFileSync_def update_conv')

lemma map_of_filter_keys:
  "map_of (filter (\<lambda>(p, c). P p) d) k = (if P k then map_of d k else None)"
  by (induction d) auto

lemma dst_print [simp]: "dst (print l s) = dst s"
  by (simp add: print_def)

lemma browser_open_print [simp]: "browser_open (print l s) = browser_open s"
  by (simp add: print_def)

lemma dst_write_dst: "dst (write_dst p content s) = writeFileSync p content (dst s)"
  by (simp add: write_dst_def)

lemma browser_open_write_dst [simp]: "browser_open (write_dst p content s) = browser_open s"
  by (simp add: write_dst_def)

lemma step_Continue:
  "step name f s = (Continue, s') \<longleftrightarrow>
     (\<exists>t. f s = (Continue, t) \<and> s' = print (TimeEndLabel name) t)"
  by (auto simp: step_def split: prod.splits outcome.splits)

lemma dst_step: "dst (snd (step name f s)) = dst (snd (f s))"
  by (auto simp: step_def split: prod.splits outcome.splits)


lemma run_steps_invariant:
  "(\<And>f t. f \<in> set fs \<Longrightarrow> P t \<Longrightarrow> P (snd (f t))) \<Longrightarrow> P s \<Longrightarrow> P (snd (run_steps fs s))"
proof (induction fs arbitrary: s)
  case Nil
  then show ?case by simp
next
  case (Cons f fs)
  have Pf: "P (snd (f s))" using Cons.prems by simp
  show ?case
  proof (cases "f s")
    case (Pair r t)
    with Pf have Pt: "P t" by simp
    show ?thesis
    proof (cases r)
      case Continue
      have "P (snd (run_steps fs t))"
        using Cons.IH [of t] Cons.prems(1) Pt by simp
      with Pair Continue show ?thesis by simp
    next
      case (Exit n)
      with Pair Pt show ?thesis by simp
    next
      case Rejected
      with Pair Pt show ?thesis by simp
    qed
  qed
qed

subsection \<open>Frames of the steps\<close>

lemma cleanup_rewrites_marker:
  assumes "map_of (dst s) ''CNAME'' = Some c" and "c \<noteq> []" and "\<not> rejects e Rimraf"
  shows "map_of (dst (snd (cleanup_output e s))) ''CNAME'' = Some (utf8_encode (utf8_decode c))"
  using assms
  by (simp add: cleanup_output_def existsSync_def readFileSync_def Let_def dst_write_dst
      map_of_writeFileSync)

lemma cleanup_keeps_marker:
  assumes "map_of (dst s) ''CNAME'' = Some c" and "c \<noteq> []" and "well_formed_utf8 c"
    and "rejects e Rimraf \<longrightarrow> left_behind e ''CNAME''"
  shows "map_of (dst (snd (cleanup_output e s))) ''CNAME'' = Some c"
proof (cases "rejects e Rimraf")
  case True
  with assms(1,4) show ?thesis
    by (simp add: cleanup_output_def Let_def map_of_filter_keys)
next
  case False
  with cleanup_rewrites_marker [OF assms(1,2)] utf8_round_trip [OF assms(3)]
  show ?thesis by simp
qed

lemma frame_index_js:
  "k \<noteq> ''index.js'' \<Longrightarrow> map_of (dst (snd (generate_index_js e v s))) k = map_of (dst s) k"
  by (simp add: generate_index_js_def Let_def dst_write_dst map_of_writeFileSync split: option.splits)

lemma frame_style_css:
  "k \<noteq> ''style.css'' \<Longrightarrow> map_of (dst (snd (generate_style_css e s))) k = map_of (dst s) k"
  by (simp add: generate_style_css_def dst_write_dst map_of_writeFileSync split: sum.splits)

lemma frame_index_html:
  "k \<noteq> ''index.html'' \<Longrightarrow> map_of (dst (snd (generate_index_html e s))) k = map_of (dst s) k"
  by (simp add: generate_index_html_def Let_def dst_write_dst map_of_writeFileSync split: sum.splits)

lemma map_of_copy_files:
  "\<not> prefix (to @ ''/'') k \<Longrightarrow> map_of (copy_files to files d) k = map_of d k"
  unfolding copy_files_def
  by (induction files arbitrary: d) (auto simp: map_of_writeFileSync path_join_def)

lemma frame_cpAsync:
  "\<not> prefix (to @ ''/'') k \<Longrightarrow> map_of (dst (snd (cpAsync e from to s))) k = map_of (dst s) k"
  by (simp add: cpAsync_def map_of_copy_files)

lemma frame_copy:
  assumes "\<not> prefix ''images/'' k" and "\<not> prefix ''favicons/'' k"
  shows "map_of (dst (snd (copy_images_and_favicons e s))) k = map_of (dst s) k"
proof -
  let ?P = "\<lambda>t::state. map_of (dst t) k = map_of (dst s) k"
  have "?P (snd (run_steps [cpAsync e (path_join (SRC_PATH e) ''images'') ''images'',
                cpAsync e (path_join (SRC_PATH e) ''favicons'') ''favicons''] s))"
  proof (rule run_steps_invariant [where P = ?P])
    fix f t
    assume "f \<in> set [cpAsync e (path_join (SRC_PATH e) ''images'') ''images'',
                cpAsync e (path_join (SRC_PATH e) ''favicons'') ''favicons'']" and "?P t"
    then show "?P (snd (f t))"
      using assms frame_cpAsync [of "''images''" k] frame_cpAsync [of "''favicons''" k] by auto
  qed simp
  then show ?thesis by (simp add: copy_images_and_favicons_def)
qed

lemma frame_sw_js:
  "k \<noteq> ''sw.js'' \<Longrightarrow> map_of (dst (snd (generate_sw_js e s))) k = map_of (dst s) k"
  by (simp add: generate_sw_js_def injectManifest_def sw_config_def Let_def dst_write_dst
      map_of_writeFileSync split: sum.splits option.splits prod.splits)

lemma fst_step: "fst (step name f s) = fst (f s)"
  by (auto simp: step_def split: prod.splits outcome.splits)

lemma run_steps_never:
  "(\<And>f t. f \<in> set fs \<Longrightarrow> fst (f t) \<noteq> r) \<Longrightarrow> r \<noteq> Continue \<Longrightarrow> fst (run_steps fs s) \<noteq> r"
proof (induction fs arbitrary: s)
  case Nil
  then show ?case by simp
next
  case (Cons f fs)
  have hd: "fst (f s) \<noteq> r" using Cons.prems(1) by simp
  have tl: "fst (run_steps fs t) \<noteq> r" for t
    using Cons.IH Cons.prems by simp
  show ?case using hd tl by (auto split: prod.splits outcome.splits)
qed

lemma cleanup_outcome: "fst (cleanup_output e s) \<noteq> Exit n"
  by (simp add: cleanup_output_def Let_def)

lemma index_js_outcome: "fst (generate_index_js e v s) \<noteq> Exit 0"
  by (simp add: generate_index_js_def Let_def split: option.splits)

lemma style_css_outcome: "fst (generate_style_css e s) \<noteq> Exit n"
  by (simp add: generate_style_css_def split: sum.splits)

lemma index_html_outcome: "fst (generate_index_html e s) \<noteq> Exit n"
  by (simp add: generate_index_html_def Let_def split: sum.splits)

lemma cpAsync_outcome: "fst (cpAsync e from to s) \<noteq> Exit n"
  by (simp add: cpAsync_def)

lemma copy_outcome: "fst (copy_images_and_favicons e s) \<noteq> Exit n"
  unfolding copy_images_and_favicons_def
  by (rule run_steps_never) (auto simp: cpAsync_outcome)

lemma sw_js_outcome: "fst (generate_sw_js e s) \<noteq> Exit n"
  by (simp add: generate_sw_js_def split: sum.splits prod.splits)

lemma steps_outcome: "fst (run_steps (steps e v) s) \<noteq> Exit 0"
  by (rule run_steps_never)
    (auto simp: steps_def fst_step cleanup_outcome index_js_outcome style_css_outcome
      index_html_outcome copy_outcome sw_js_outcome)

lemma build_done:
  assumes "fst (build e s) = Exit 0"
  shows "platform e \<noteq> ''win32'' \<and> \<not> rejects e GitLog \<and>
         (\<exists>s'. run_steps (steps e (package_version e @ ''+'' @ git_stdout e)) s = (Continue, s') \<and>
               dst (snd (build e s)) = dst s')"
proof -
  let ?v = "package_version e @ ''+'' @ git_stdout e"
  have p: "platform e \<noteq> ''win32''"
    using assms by (auto simp: build_def)
  have g: "\<not> rejects e GitLog"
    using assms p by (auto simp: build_def generateVersion_def)
  obtain r s' where rs: "run_steps (steps e ?v) s = (r, s')"
    by (cases "run_steps (steps e ?v) s")
  have "r \<noteq> Exit 0" using steps_outcome [of e ?v s] rs by simp
  then have "r = Continue"
    using assms p g rs by (cases r) (auto simp: build_def generateVersion_def)
  then show ?thesis using p g rs by (simp add: build_def generateVersion_def)
qed





lemma demo_build_done: "fst (build demo_env (demo_state ''pptr.dev'')) = Exit 0"
  by (simp add: demo_env_def demo_state_def script_defs demo_cname)

section \<open>The marker file\<close>

text \<open>
  Claim C1, as the script has it: a marker file \<open>CNAME\<close> whose content is not empty and
  is well-formed UTF-8 has the same bytes after the build as before it, however the build
  ends, unless the recursive removal of the output directory itself fails after deleting
  the file. Step 1 reads the file as UTF-8 text, removes and re-creates the directory and
  writes the text back as UTF-8; the files written by steps 2 to 6 leave it as it is.
\<close>

theorem build_keeps_marker:
  assumes "map_of (dst s) ''CNAME'' = Some c" and "c \<noteq> []" and "well_formed_utf8 c"
    and "rejects e Rimraf \<longrightarrow> left_behind e ''CNAME''"
  shows "map_of (dst (snd (build e s))) ''CNAME'' = Some c"
proof -
  let ?P = "\<lambda>t::state. map_of (dst t) ''CNAME'' = Some c"
  have run: "?P (snd (run_steps (steps e v) s))" for v
  proof (rule run_steps_invariant [where P = ?P])
    fix f t
    assume f: "f \<in> set (steps e v)" and t: "?P t"
    have 1: "?P (snd (cleanup_output e t))"
      using cleanup_keeps_marker [of t c e] t assms(2,3,4) by simp
    have 2: "?P (snd (generate_index_js e v t))"
      using t by (simp add: frame_index_js)
    have 3: "?P (snd (generate_style_css e t))"
      using t by (simp add: frame_style_css)
    have 4: "?P (snd (generate_index_html e t))"
      using t by (simp add: frame_index_html)
    have 5: "?P (snd (copy_images_and_favicons e t))"
      using t by (simp add: frame_copy)
    have 6: "?P (snd (generate_sw_js e t))"
      using t by (simp add: frame_sw_js)
    from f show "?P (snd (f t))"
      unfolding steps_def using 1 2 3 4 5 6 by (auto simp: dst_step)
  qed (rule assms(1))
  show ?thesis
  proof (cases "platform e = ''win32''")
    case True
    then show ?thesis using assms(1) by (simp add: build_def)
  next
    case False
    show ?thesis
    proof (cases "generateVersion e")
      case (Inl err)
      with False show ?thesis using assms(1) by (simp add: build_def)
    next
      case (Inr v)
      with False run [of v] show ?thesis
        by (auto simp: build_def split: prod.splits outcome.splits)
    qed
  qed
qed

theorem build_keeps_marker_witness:
  "map_of (dst (snd (build demo_env (demo_state ''pptr.dev'')))) ''CNAME'' = Some ''pptr.dev''"
  using build_keeps_marker [of "demo_state ''pptr.dev''" "''pptr.dev''" demo_env]
  by (simp add: demo_env_def demo_state_def well_formed_utf8_def)

text \<open>
  Claim C1 as stated fails in two ways. A marker file that exists and is empty is gone
  after a build that succeeds. A marker file that is not well-formed UTF-8, here the one
  byte \<open>FF\<close>, is rewritten: the decoder reads U+FFFD and the file holds \<open>EF BF BD\<close> after
  the build.
\<close>

theorem marker_lost_or_rewritten:
  "map_of (dst (demo_state [])) ''CNAME'' = Some [] \<and>
   fst (build demo_env (demo_state [])) = Exit 0 \<and>
   map_of (dst (snd (build demo_env (demo_state [])))) ''CNAME'' = None \<and>
   map_of (dst (demo_state [CHR 0xFF])) ''CNAME'' = Some [CHR 0xFF] \<and>
   fst (build demo_env (demo_state [CHR 0xFF])) = Exit 0 \<and>
   map_of (dst (snd (build demo_env (demo_state [CHR 0xFF])))) ''CNAME''
     = Some [CHR 0xEF, CHR 0xBF, CHR 0xBD]"
  by (simp add: demo_env_def demo_state_def script_defs demo_invalid_cname)

text \<open>
  Claim C9: when the marker file \<open>CNAME\<close> exists with the empty string as its content,
  the output directory holds no marker file (it holds no file at all) after step 1 has
  completed: the empty text is falsy, and the file is not written back.
\<close>

theorem cleanup_drops_empty_marker:
  assumes "map_of (dst s) ''CNAME'' = Some []"
    and "step ''1. cleanup output folder'' (cleanup_output e) s = (Continue, s')"
  shows "\<not> existsSync (dst s') ''CNAME'' \<and> dst s' = []"
proof -
  obtain t where t: "cleanup_output e s = (Continue, t)"
    and s': "s' = print (TimeEndLabel ''1. cleanup output folder'') t"
    using assms(2) by (auto simp: step_Continue)
  have "dst t = []"
    using t assms(1)
    by (auto simp: cleanup_output_def existsSync_def readFileSync_def Let_def split: if_splits)
  then show ?thesis using s' by (simp add: existsSync_def)
qed

theorem cleanup_drops_empty_marker_witness:
  "map_of (dst (demo_state [])) ''CNAME'' = Some [] \<and>
   step ''1. cleanup output folder'' (cleanup_output demo_env) (demo_state []) =
     (Continue, \<lparr>dst = [], browser_open = False,
                 console = [TimeEndLabel ''1. cleanup output folder'']\<rparr>) \<and>
   \<not> existsSync [] ''CNAME''"
proof -
  have a: "map_of (dst (demo_state [])) ''CNAME'' = Some []"
    by (simp add: demo_state_def)
  have b: "step ''1. cleanup output folder'' (cleanup_output demo_env) (demo_state []) =
     (Continue, \<lparr>dst = [], browser_open = False,
                 console = [TimeEndLabel ''1. cleanup output folder'']\<rparr>)"
    by (simp add: demo_env_def demo_state_def step_def cleanup_output_def existsSync_def
        readFileSync_def print_def)
  from cleanup_drops_empty_marker [OF a b] a b show ?thesis by simp
qed

section \<open>Failure of the script minifier\<close>

text \<open>
  Claim C2: when the run reaches \<open>UglifyJS.minify\<close> in step 2 and the result carries an
  error, the process exits with status 1, and the output directory holds no
  \<open>index.html\<close>, no \<open>sw.js\<close> and nothing under \<open>images/\<close> or \<open>favicons/\<close>: steps 3 to 6
  never run, and step 1 has emptied the directory, which holds at most the marker file.
\<close>

theorem minify_error_aborts:
  assumes "platform e \<noteq> ''win32''" and "\<not> rejects e GitLog" and "\<not> rejects e Rimraf"
    and "\<not> rejects e RollupBundle" and "\<not> rejects e BundleGenerate"
    and "min_error (uglify_minify e (bundle_code e)) = Some err"
  shows "fst (build e s) = Exit 1 \<and>
         \<not> existsSync (dst (snd (build e s))) ''index.html'' \<and>
         \<not> existsSync (dst (snd (build e s))) ''sw.js'' \<and>
         (\<forall>p. prefix ''images/'' p \<or> prefix ''favicons/'' p \<longrightarrow>
              \<not> existsSync (dst (snd (build e s))) p) \<and>
         fst ` set (dst (snd (build e s))) \<subseteq> {''CNAME''}"
  using assms
  by (auto simp: build_def generateVersion_def steps_def step_def cleanup_output_def
      generate_index_js_def Let_def existsSync_def readFileSync_def write_dst_def
      writeFileSync_def print_def)

theorem minify_error_aborts_witness:
  "fst (build (demo_env\<lparr>uglify_minify := (\<lambda>c. \<lparr>min_error = Some ''SyntaxError'', min_code = []\<rparr>)\<rparr>)
         (demo_state ''pptr.dev'')) = Exit 1 \<and>
   dst (snd (build (demo_env\<lparr>uglify_minify := (\<lambda>c. \<lparr>min_error = Some ''SyntaxError'', min_code = []\<rparr>)\<rparr>)
         (demo_state ''pptr.dev''))) = [(''CNAME'', ''pptr.dev'')]"
proof -
  let ?e = "demo_env\<lparr>uglify_minify := (\<lambda>c. \<lparr>min_error = Some ''SyntaxError'', min_code = []\<rparr>)\<rparr>"
  have "fst (build ?e (demo_state ''pptr.dev'')) = Exit 1"
    using minify_error_aborts [of ?e "''SyntaxError''" "demo_state ''pptr.dev''"]
    by (simp add: demo_env_def)
  moreover have "dst (snd (build ?e (demo_state ''pptr.dev''))) = [(''CNAME'', ''pptr.dev'')]"
    by (simp add: demo_env_def demo_state_def script_defs demo_cname)
  ultimately show ?thesis by simp
qed

section \<open>The generated files\<close>






lemma selector_set_href [simp]:
  "selector_link_stylesheet (set_href h el) = selector_link_stylesheet el"
  by (simp add: selector_link_stylesheet_def set_href_def update_conv')


lemma no_links_iff:
  "filter (\<lambda>(i, el). T el) (enumerate n doc) = [] \<longleftrightarrow> \<not> (\<exists>el\<in>set doc. T el)"
proof -
  have "set doc = snd ` set (enumerate n doc)"
    by (metis map_snd_enumerate set_map)
  then show ?thesis by (auto simp: filter_empty_conv)
qed


lemma rewrite_links_Inl:
  "rewrite_links resolve doc = Inl err \<longleftrightarrow>
     err = TypeError \<and> \<not> (\<exists>el\<in>set doc. same_origin_stylesheet resolve el)"
proof -
  let ?sel = "\<lambda>(i::nat, el). same_origin_stylesheet resolve el"
  have "filter ?sel (enumerate 0 doc) = [] \<longleftrightarrow>
          \<not> (\<exists>el\<in>set doc. same_origin_stylesheet resolve el)"
    by (rule no_links_iff)
  then show ?thesis
    by (auto simp: rewrite_links_def Let_def split: list.splits)
qed

section \<open>Rendering \<open>index.html\<close>\<close>





text \<open>
  Claim C6, as the script has it: \<open>browser.close()\<close> is the last browser call of the step,
  the file is written after it, and nothing catches a rejection. With no browser open
  before the step, a browser is open after it exactly when the launch succeeded and the
  step did not complete. A step that does not complete has written nothing, also when
  it is \<open>browser.close()\<close> that rejects: \<open>index.html\<close> is written only once the browser is
  closed. A step that completes has closed the browser and written \<open>index.html\<close>.
\<close>

theorem browser_open_after_step:
  assumes "\<not> browser_open s"
  shows "(browser_open (snd (generate_index_html e s)) \<longleftrightarrow>
            \<not> rejects e PptrLaunch \<and> fst (generate_index_html e s) \<noteq> Continue) \<and>
         (fst (generate_index_html e s) \<noteq> Continue \<longrightarrow>
            dst (snd (generate_index_html e s)) = dst s) \<and>
         (rejects e BrowserClose \<longrightarrow> fst (generate_index_html e s) = Rejected) \<and>
         (fst (generate_index_html e s) = Continue \<longrightarrow>
            \<not> browser_open (snd (generate_index_html e s)) \<and>
            existsSync (dst (snd (generate_index_html e s))) ''index.html'')"
proof (intro conjI)
  show "browser_open (snd (generate_index_html e s)) \<longleftrightarrow>
          \<not> rejects e PptrLaunch \<and> fst (generate_index_html e s) \<noteq> Continue"
    using assms by (auto simp: generate_index_html_def Let_def split: sum.splits)
  show "fst (generate_index_html e s) \<noteq> Continue \<longrightarrow>
          dst (snd (generate_index_html e s)) = dst s"
    by (auto simp: generate_index_html_def Let_def split: sum.splits)
  show "rejects e BrowserClose \<longrightarrow> fst (generate_index_html e s) = Rejected"
    by (auto simp: generate_index_html_def Let_def split: sum.splits)
  show "fst (generate_index_html e s) = Continue \<longrightarrow>
          \<not> browser_open (snd (generate_index_html e s)) \<and>
          existsSync (dst (snd (generate_index_html e s))) ''index.html''"
    by (auto simp: generate_index_html_def Let_def existsSync_def dst_write_dst
        map_of_writeFileSync split: sum.splits if_splits)
qed

theorem browser_open_after_step_witness:
  "\<not> browser_open (demo_state ''pptr.dev'') \<and>
   fst (generate_index_html demo_env (demo_state ''pptr.dev'')) = Continue \<and>
   \<not> browser_open (snd (generate_index_html demo_env (demo_state ''pptr.dev''))) \<and>
   existsSync (dst (snd (generate_index_html demo_env (demo_state ''pptr.dev'')))) ''index.html'' \<and>
   rejects (demo_env\<lparr>rejects := (\<lambda>c. c = BrowserClose)\<rparr>) BrowserClose \<and>
   fst (generate_index_html (demo_env\<lparr>rejects := (\<lambda>c. c = BrowserClose)\<rparr>)
          (demo_state ''pptr.dev'')) = Rejected \<and>
   browser_open (snd (generate_index_html (demo_env\<lparr>rejects := (\<lambda>c. c = BrowserClose)\<rparr>)
          (demo_state ''pptr.dev''))) \<and>
   dst (snd (generate_index_html (demo_env\<lparr>rejects := (\<lambda>c. c = BrowserClose)\<rparr>)
          (demo_state ''pptr.dev''))) = dst (demo_state ''pptr.dev'')"
proof -
  let ?e = "demo_env\<lparr>rejects := (\<lambda>c. c = BrowserClose)\<rparr>"
  have a: "\<not> browser_open (demo_state ''pptr.dev'')"
    by (simp add: demo_state_def)
  have b: "fst (generate_index_html demo_env (demo_state ''pptr.dev'')) = Continue"
    by (simp add: demo_env_def demo_state_def script_defs demo_cname)
  have c: "rejects ?e BrowserClose"
    by simp
  have d: "\<not> rejects ?e PptrLaunch"
    by simp
  from browser_open_after_step [OF a, of demo_env] browser_open_after_step [OF a, of ?e]
    a b c d
  show ?thesis by simp
qed

text \<open>
  Claim C6 as stated fails when the in-page function throws (a page without same-origin
  style sheet link) and when \<open>page.content()\<close> rejects: the step fails and the browser
  is still open.
\<close>

theorem browser_leaked_on_failure:
  "generate_index_html (demo_env\<lparr>page_dom := (\<lambda>url. [])\<rparr>) (demo_state ''pptr.dev'') =
     (Rejected, (demo_state ''pptr.dev'')\<lparr>browser_open := True\<rparr>) \<and>
   generate_index_html (demo_env\<lparr>rejects := (\<lambda>c. c = PageContent)\<rparr>) (demo_state ''pptr.dev'') =
     (Rejected, (demo_state ''pptr.dev'')\<lparr>browser_open := True\<rparr>)"
  by (simp add: demo_env_def demo_state_def script_defs demo_cname)

text \<open>
  Claim C10: the in-page function returns when the page has a same-origin style sheet
  link and throws a \<open>TypeError\<close> when it has none; in the second case step 4 fails and
  writes nothing.
\<close>

theorem stylesheet_link_required:
  "((\<exists>el\<in>set doc. same_origin_stylesheet resolve el) \<longrightarrow>
      (\<exists>doc'. rewrite_links resolve doc = Inr doc')) \<and>
   ((\<forall>el\<in>set doc. \<not> same_origin_stylesheet resolve el) \<longrightarrow>
      rewrite_links resolve doc = Inl TypeError) \<and>
   ((\<forall>el\<in>set (page_dom e (index_url e)). \<not> same_origin_stylesheet (resolve_url e) el) \<longrightarrow>
      fst (generate_index_html e s) = Rejected \<and>
      dst (snd (generate_index_html e s)) = dst s)"
proof -
  have 1: "\<exists>doc'. rewrite_links resolve doc = Inr doc'"
    if "\<exists>el\<in>set doc. same_origin_stylesheet resolve el"
  proof (cases "rewrite_links resolve doc")
    case (Inl err)
    with that show ?thesis by (simp add: rewrite_links_Inl)
  next
    case (Inr d)
    then show ?thesis by blast
  qed
  have 2: "rewrite_links resolve doc = Inl TypeError"
    if "\<forall>el\<in>set doc. \<not> same_origin_stylesheet resolve el" for resolve doc
    using that by (simp add: rewrite_links_Inl)
  have 3: "fst (generate_index_html e s) = Rejected \<and> dst (snd (generate_index_html e s)) = dst s"
    if "\<forall>el\<in>set (page_dom e (index_url e)). \<not> same_origin_stylesheet (resolve_url e) el"
    using 2 [OF that] by (simp add: generate_index_html_def Let_def)
  from 1 2 3 show ?thesis by blast
qed

theorem stylesheet_link_required_witness:
  "(\<exists>el\<in>set (page_dom demo_env (index_url demo_env)).
       same_origin_stylesheet (resolve_url demo_env) el) \<and>
   (\<exists>doc'. rewrite_links (resolve_url demo_env) (page_dom demo_env (index_url demo_env)) = Inr doc') \<and>
   page_dom (demo_env\<lparr>page_dom := (\<lambda>url. [])\<rparr>)
     (index_url (demo_env\<lparr>page_dom := (\<lambda>url. [])\<rparr>)) = [] \<and>
   fst (generate_index_html (demo_env\<lparr>page_dom := (\<lambda>url. [])\<rparr>) (demo_state ''pptr.dev''))
     = Rejected"
proof -
  let ?e = "demo_env\<lparr>page_dom := (\<lambda>url. [])\<rparr>"
  have a: "\<exists>el\<in>set (page_dom demo_env (index_url demo_env)).
       same_origin_stylesheet (resolve_url demo_env) el"
    by (simp add: demo_env_def same_origin_stylesheet_def selector_link_stylesheet_def
        ascii_case_insensitive_eq_def ascii_lower_def href_prop_def)
  have b: "\<forall>el\<in>set (page_dom ?e (index_url ?e)). \<not> same_origin_stylesheet (resolve_url ?e) el"
    by simp
  from stylesheet_link_required
         [of "page_dom demo_env (index_url demo_env)" "resolve_url demo_env" ?e
             "demo_state ''pptr.dev''"] a b
  show ?thesis by simp
qed

section \<open>The service worker and the reported numbers\<close>

lemma globbed_sw_config:
  "globbed (sw_config e) d = filter (\<lambda>(p, c). p \<noteq> ''CNAME'') d"
  by (simp add: globbed_def sw_config_def glob_match_def eq_commute [of "''CNAME''"])

lemma length_filter_keys:
  assumes "distinct (map fst d)"
  shows "length (filter (\<lambda>(p, c). p \<noteq> k) d) = card (fst ` set d - {k})"
proof -
  have "distinct (map fst (filter (\<lambda>(p, c). p \<noteq> k) d))"
    using assms by (simp add: distinct_map_filter)
  then have "length (map fst (filter (\<lambda>(p, c). p \<noteq> k) d))
             = card (set (map fst (filter (\<lambda>(p, c). p \<noteq> k) d)))"
    by (simp only: distinct_card)
  moreover have "set (map fst (filter (\<lambda>(p, c). p \<noteq> k) d)) = fst ` set d - {k}"
    by force
  ultimately show ?thesis by simp
qed

text \<open>
  Claim C7, against the manifest injector as the spec describes it: when the output
  directory holds \<open>N\<close> files besides \<open>CNAME\<close> and step 6 completes, the precache manifest
  injected into \<open>sw.js\<close> has \<open>N\<close> entries, one for each of these files and none for
  \<open>CNAME\<close>, and the count printed is \<open>N\<close>.
\<close>

theorem manifest_lists_all_but_marker:
  assumes "distinct (map fst (dst s))"
    and "generate_sw_js e s = (Continue, s')"
  shows "length (precache_manifest e (sw_config e) (dst s)) = card (fst ` set (dst s) - {''CNAME''}) \<and>
         fst ` set (precache_manifest e (sw_config e) (dst s)) = fst ` set (dst s) - {''CNAME''} \<and>
         (\<exists>template kb.
            src_file e (path_join (SRC_PATH e) ''sw-template.js'') = Some template \<and>
            map_of (dst s') ''sw.js'' =
              Some (inject_text e template (precache_manifest e (sw_config e) (dst s))) \<and>
            console s' =
              console s @ [PrecacheLine (card (fst ` set (dst s) - {''CNAME''})) kb])"
proof -
  let ?m = "precache_manifest e (sw_config e) (dst s)"
  have len: "length ?m = card (fst ` set (dst s) - {''CNAME''})"
    using length_filter_keys [OF assms(1), of "''CNAME''"]
    by (simp add: precache_manifest_def globbed_sw_config)
  have keys: "fst ` set ?m = fst ` set (dst s) - {''CNAME''}"
    by (force simp: precache_manifest_def globbed_sw_config)
  from assms(2) obtain template where
    t: "src_file e (path_join (SRC_PATH e) ''sw-template.js'') = Some template"
    by (auto simp: generate_sw_js_def injectManifest_def sw_config_def
        split: if_splits option.splits sum.splits)
  have s': "s' = print (PrecacheLine (length ?m)
                   (kbSize (sum_list (map (\<lambda>(p, c). length c) (globbed (sw_config e) (dst s))))))
                  (write_dst ''sw.js'' (inject_text e template ?m) s)"
    using assms(2) t
    by (auto simp: generate_sw_js_def injectManifest_def sw_config_def Let_def
        split: if_splits)
  have "map_of (dst s') ''sw.js'' = Some (inject_text e template ?m)"
    by (simp add: s' dst_write_dst map_of_writeFileSync)
  moreover have "console s' = console s @ [PrecacheLine (card (fst ` set (dst s) - {''CNAME''}))
       (kbSize (sum_list (map (\<lambda>(p, c). length c) (globbed (sw_config e) (dst s)))))]"
    by (simp add: s' len print_def write_dst_def)
  ultimately show ?thesis using len keys t by blast
qed

theorem manifest_lists_all_but_marker_witness:
  "distinct (map fst (dst demo_populated)) \<and>
   fst (generate_sw_js demo_env demo_populated) = Continue \<and>
   card (fst ` set (dst demo_populated) - {''CNAME''}) = 2 \<and>
   length (precache_manifest demo_env (sw_config demo_env) (dst demo_populated)) = 2 \<and>
   fst ` set (precache_manifest demo_env (sw_config demo_env) (dst demo_populated))
     = {''index.js'', ''index.html''}"
proof -
  have a: "distinct (map fst (dst demo_populated))"
    by (simp add: demo_populated_def)
  have b: "fst (generate_sw_js demo_env demo_populated) = Continue"
    by (simp add: demo_env_def demo_populated_def generate_sw_js_def injectManifest_def
        sw_config_def SRC_PATH_def path_join_def Let_def)
  then have b': "generate_sw_js demo_env demo_populated =
      (Continue, snd (generate_sw_js demo_env demo_populated))"
    by (metis prod.collapse)
  have c: "fst ` set (dst demo_populated) - {''CNAME''} = {''index.js'', ''index.html''}"
    by (auto simp: demo_populated_def)
  then have d: "card (fst ` set (dst demo_populated) - {''CNAME''}) = 2"
    by simp
  from manifest_lists_all_but_marker [OF a b'] a b c d show ?thesis by simp
qed

lemma build_done_console:
  assumes "fst (build e s) = Exit 0"
  shows "last (console (snd (build e s))) =
           DoneLine (package_version e @ ''+'' @ git_stdout e)
             (seconds (clock_finish e) (clock_start e))"
proof -
  let ?v = "package_version e @ ''+'' @ git_stdout e"
  from build_done [OF assms] obtain s' where p: "platform e \<noteq> ''win32''"
    and g: "\<not> rejects e GitLog"
    and run: "run_steps (steps e ?v) s = (Continue, s')"
    by blast
  then show ?thesis by (simp add: build_def generateVersion_def print_def)
qed

text \<open>
  Claim C8, as the script has it: for a byte size below \<open>2^53 / 25\<close> the size printed by
  step 6 is the double nearest to a number of hundredths that is within half a hundredth
  of the byte size divided by 1024; for clock readings less than \<open>2^53\<close> milliseconds
  apart the time printed at the end of a successful build is the double nearest to a
  number of tenths that is within half a tenth of the elapsed milliseconds divided by
  1000. A tie is rounded up, as \<open>Math.round\<close> does.
\<close>

theorem logged_numbers_rounded:
  "(\<forall>cnt sz s'. injectManifest e (sw_config e) s = Inr ((cnt, sz), s') \<and> 25 * sz < 2 ^ 53 \<longrightarrow>
      (\<exists>k::int.
         generate_sw_js e s =
           (Continue, print (PrecacheLine cnt (round_double (of_int k / 100))) s') \<and>
         of_nat sz / 1024 - 1 / 200 < (of_int k / 100 :: rat) \<and>
         (of_int k / 100 :: rat) \<le> of_nat sz / 1024 + 1 / 200)) \<and>
   (fst (build e s) = Exit 0 \<and> \<bar>clock_finish e - clock_start e\<bar> < 2 ^ 53 \<longrightarrow>
      (\<exists>k::int.
         last (console (snd (build e s))) =
           DoneLine (package_version e @ ''+'' @ git_stdout e) (round_double (of_int k / 10)) \<and>
         of_int (clock_finish e - clock_start e) / 1000 - 1 / 20 < (of_int k / 10 :: rat) \<and>
         (of_int k / 10 :: rat) \<le> of_int (clock_finish e - clock_start e) / 1000 + 1 / 20))"
proof (intro conjI allI impI)
  fix cnt sz s'
  assume "injectManifest e (sw_config e) s = Inr ((cnt, sz), s') \<and> 25 * sz < 2 ^ 53"
  then have inj: "injectManifest e (sw_config e) s = Inr ((cnt, sz), s')"
    and small: "25 * sz < 2 ^ 53"
    by simp_all
  let ?k = "Math_round (of_nat sz / 1024 * 100)"
  have "generate_sw_js e s =
          (Continue, print (PrecacheLine cnt (round_double (of_int ?k / 100))) s')"
    using inj by (simp add: generate_sw_js_def kbSize_exact [OF small])
  moreover have "of_nat sz / 1024 - 1 / 200 < (of_int ?k / 100 :: rat) \<and>
         (of_int ?k / 100 :: rat) \<le> of_nat sz / 1024 + 1 / 200"
    using Math_round_bounds [of "of_nat sz / 1024 * 100"] by (simp add: field_simps)
  ultimately show "\<exists>k::int.
         generate_sw_js e s =
           (Continue, print (PrecacheLine cnt (round_double (of_int k / 100))) s') \<and>
         of_nat sz / 1024 - 1 / 200 < (of_int k / 100 :: rat) \<and>
         (of_int k / 100 :: rat) \<le> of_nat sz / 1024 + 1 / 200"
    by blast
next
  assume "fst (build e s) = Exit 0 \<and> \<bar>clock_finish e - clock_start e\<bar> < 2 ^ 53"
  then have fin: "fst (build e s) = Exit 0"
    and small: "\<bar>clock_finish e - clock_start e\<bar> < 2 ^ 53"
    by simp_all
  let ?k = "Math_round (of_int (clock_finish e - clock_start e) / 100)"
  have "last (console (snd (build e s))) =
           DoneLine (package_version e @ ''+'' @ git_stdout e) (round_double (of_int ?k / 10))"
    using build_done_console [OF fin] by (simp only: seconds_exact [OF small])
  moreover have
    "of_int (clock_finish e - clock_start e) / 1000 - 1 / 20 < (of_int ?k / 10 :: rat) \<and>
     (of_int ?k / 10 :: rat) \<le> of_int (clock_finish e - clock_start e) / 1000 + 1 / 20"
    using Math_round_bounds [of "of_int (clock_finish e - clock_start e) / 100"]
    by (simp add: field_simps)
  ultimately show "\<exists>k::int.
         last (console (snd (build e s))) =
           DoneLine (package_version e @ ''+'' @ git_stdout e) (round_double (of_int k / 10)) \<and>
         of_int (clock_finish e - clock_start e) / 1000 - 1 / 20 < (of_int k / 10 :: rat) \<and>
         (of_int k / 10 :: rat) \<le> of_int (clock_finish e - clock_start e) / 1000 + 1 / 20"
    by blast
qed

theorem logged_numbers_rounded_witness:
  "injectManifest demo_env (sw_config demo_env) demo_populated =
     Inr ((2, 2051),
          write_dst ''sw.js'' (''sw'' @ ''index.js'' @ ''index.html'') demo_populated) \<and>
   25 * (2051::nat) < 2 ^ 53 \<and>
   (\<exists>k::int.
      generate_sw_js demo_env demo_populated =
        (Continue, print (PrecacheLine 2 (round_double (of_int k / 100)))
           (write_dst ''sw.js'' (''sw'' @ ''index.js'' @ ''index.html'') demo_populated)) \<and>
      2051 / 1024 - 1 / 200 < (of_int k / 100 :: rat) \<and>
      (of_int k / 100 :: rat) \<le> 2051 / 1024 + 1 / 200) \<and>
   fst (build demo_env (demo_state ''pptr.dev'')) = Exit 0 \<and>
   \<bar>clock_finish demo_env - clock_start demo_env\<bar> < 2 ^ 53 \<and>
   (\<exists>k::int.
      last (console (snd (build demo_env (demo_state ''pptr.dev'')))) =
        DoneLine ''1.0.0+abc1234'' (round_double (of_int k / 10)) \<and>
      2260 / 1000 - 1 / 20 < (of_int k / 10 :: rat) \<and>
      (of_int k / 10 :: rat) \<le> 2260 / 1000 + 1 / 20)"
proof -
  have a: "injectManifest demo_env (sw_config demo_env) demo_populated =
     Inr ((2, 2051),
          write_dst ''sw.js'' (''sw'' @ ''index.js'' @ ''index.html'') demo_populated)"
    by (simp add: demo_env_def demo_populated_def injectManifest_def sw_config_def globbed_def
        precache_manifest_def glob_match_def SRC_PATH_def path_join_def)
  have a': "25 * (2051::nat) < 2 ^ 53"
    by simp
  have b: "fst (build demo_env (demo_state ''pptr.dev'')) = Exit 0"
    by (rule demo_build_done)
  have b': "\<bar>clock_finish demo_env - clock_start demo_env\<bar> < 2 ^ 53"
    by (simp add: demo_env_def)
  have 1: "\<exists>k::int.
      generate_sw_js demo_env demo_populated =
        (Continue, print (PrecacheLine 2 (round_double (of_int k / 100)))
           (write_dst ''sw.js'' (''sw'' @ ''index.js'' @ ''index.html'') demo_populated)) \<and>
      2051 / 1024 - 1 / 200 < (of_int k / 100 :: rat) \<and>
      (of_int k / 100 :: rat) \<le> 2051 / 1024 + 1 / 200"
    using logged_numbers_rounded [of demo_env demo_populated] a a' by simp
  have 2: "\<exists>k::int.
      last (console (snd (build demo_env (demo_state ''pptr.dev'')))) =
        DoneLine ''1.0.0+abc1234'' (round_double (of_int k / 10)) \<and>
      2260 / 1000 - 1 / 20 < (of_int k / 10 :: rat) \<and>
      (of_int k / 10 :: rat) \<le> 2260 / 1000 + 1 / 20"
    using logged_numbers_rounded [of demo_env "demo_state ''pptr.dev''"] b b'
    by (simp add: demo_env_def)
  from a a' b b' 1 2 show ?thesis by blast
qed

text \<open>
  Claim C8 as stated fails for a byte size of \<open>2^53 / 25\<close> or more: at 360287970189655
  bytes the product \<open>size / 1024 * 100\<close> is rounded to a double that ends in one half, and
  the number printed is the double nearest to 351843720888.34, while the byte size
  divided by 1024 is within half a hundredth of 351843720888.33.
\<close>

theorem size_off_by_a_hundredth:
  "kbSize 360287970189655 = round_double (35184372088834 / 100) \<and>
   round_double (35184372088834 / 100) \<noteq> round_double (35184372088833 / 100) \<and>
   \<bar>(35184372088833 / 100 :: rat) - 360287970189655 / 1024\<bar> < 1 / 200 \<and>
   (1 / 200 :: rat) < 35184372088834 / 100 - 360287970189655 / 1024"
proof -
  have 1: "kbSize 360287970189655 = round_double (35184372088834 / 100)"
    unfolding kbSize_def of_nat_numeral by code_simp
  have 2: "round_double (35184372088834 / 100) \<noteq> round_double (35184372088833 / 100)"
    by code_simp
  have 3: "\<bar>(35184372088833 / 100 :: rat) - 360287970189655 / 1024\<bar> < 1 / 200"
    by simp
  have 4: "(1 / 200 :: rat) < 35184372088834 / 100 - 360287970189655 / 1024"
    by simp
  from 1 2 3 4 show ?thesis by blast
qed

end
